theory Spec2Isabelle
  imports Main
begin

unbundle bit_operations_syntax

section \<open>C integers and pointers\<close>

text \<open>
  A C \<open>int\<close> is a 32-bit two's complement value. It is modelled as an \<open>int\<close> that
  stays in range because every arithmetic result is wrapped by \<open>int32\<close>.
\<close>

definition int32 :: "int \<Rightarrow> int" where
  "int32 x = (x + 2147483648) mod 4294967296 - 2147483648"

text \<open>C division and remainder truncate towards zero.\<close>

definition cdiv :: "int \<Rightarrow> int \<Rightarrow> int" where
  "cdiv a b = sgn a * sgn b * (\<bar>a\<bar> div \<bar>b\<bar>)"

definition cmod :: "int \<Rightarrow> int \<Rightarrow> int" where
  "cmod a b = sgn a * (\<bar>a\<bar> mod \<bar>b\<bar>)"

text \<open>
  Addresses are absolute byte addresses. \<open>blk_hdr\<close> holds one \<open>int\<close>, so arithmetic
  on a \<open>blk_hdr*\<close> moves in steps of four bytes, while arithmetic on a \<open>void*\<close> or
  \<open>char*\<close> moves in bytes.
\<close>

type_synonym addr = int

definition NULL :: addr where
  "NULL = 0"

definition MAP_FAILED :: addr where
  "MAP_FAILED = - 1"

definition hdr_add :: "addr \<Rightarrow> int \<Rightarrow> addr" where
  "hdr_add p n = p + 4 * n"

section \<open>The heap\<close>

text \<open>
  The program state is the two variables \<open>first_blk\<close> and \<open>allocated_once\<close> and
  the memory. Memory maps the address of every mapped, aligned four-byte slot to the
  \<open>size_status\<close> word stored there; reading or writing any other address is a fault.
\<close>

datatype fault = Segfault | DivideByZero

record heap =
  first_blk :: addr
  allocated_once :: int
  mem :: "addr \<rightharpoonup> int"

definition startup :: heap where
  "startup = \<lparr>first_blk = NULL, allocated_once = 0, mem = Map.empty\<rparr>"

definition load :: "heap \<Rightarrow> addr \<Rightarrow> fault + int" where
  "load h p = (case mem h p of None \<Rightarrow> Inl Segfault | Some w \<Rightarrow> Inr w)"

definition store :: "heap \<Rightarrow> addr \<Rightarrow> int \<Rightarrow> fault + heap" where
  "store h p v =
     (case mem h p of
        None \<Rightarrow> Inl Segfault
      | Some _ \<Rightarrow> Inr (h\<lparr>mem := (mem h)(p \<mapsto> v)\<rparr>))"

section \<open>Mem\_Dump\<close>

record row =
  counter :: int
  status :: string
  p_status :: string
  t_begin :: addr
  t_end :: addr
  t_size :: int

record report =
  rows :: "row list"
  busy_size :: int
  free_size :: int

text \<open>
  The loop of \<open>Mem_Dump\<close>. A result \<open>None\<close> means that the loop does not return,
  \<open>Some (Inl f)\<close> that it faults, \<open>Some (Inr r)\<close> that it prints the report \<open>r\<close>.
\<close>

partial_function (option) Mem_Dump_loop ::
  "heap \<Rightarrow> addr \<Rightarrow> int \<Rightarrow> int \<Rightarrow> int \<Rightarrow> row list \<Rightarrow> (fault + report) option"
where
  "Mem_Dump_loop h current cnt busy free out =
     (case load h current of
        Inl e \<Rightarrow> Some (Inl e)
      | Inr w \<Rightarrow>
          if w \<noteq> 1 then
            let is_busy = (w AND 1 \<noteq> 0);
                t1 = (if is_busy then int32 (w - 1) else w);
                prev_busy = (t1 AND 2 \<noteq> 0);
                t2 = (if prev_busy then int32 (t1 - 2) else t1);
                busy' = (if is_busy then int32 (busy + t2) else busy);
                free' = (if is_busy then free else int32 (free + t2));
                r = \<lparr>counter = cnt,
                     status = (if is_busy then ''Busy'' else ''Free''),
                     p_status = (if prev_busy then ''Busy'' else ''Free''),
                     t_begin = current,
                     t_end = current + t2 - 1,
                     t_size = t2\<rparr>
            in Mem_Dump_loop h (current + t2) (int32 (cnt + 1)) busy' free' (out @ [r])
          else Some (Inr \<lparr>rows = out, busy_size = busy, free_size = free\<rparr>))"

definition Mem_Dump :: "heap \<Rightarrow> (fault + report) option" where
  "Mem_Dump h = Mem_Dump_loop h (first_blk h) 1 0 0 []"

section \<open>Mem\_Alloc\<close>

text \<open>Lines 82 to 86: add the header and pad to a multiple of eight.\<close>

definition round_size :: "int \<Rightarrow> int" where
  "round_size size0 =
     (let sz = int32 (size0 + 4)
      in if cmod sz 8 \<noteq> 0 then int32 (int32 (cdiv sz 8 + 1) * 8) else sz)"

text \<open>
  The rounding that the specification names \<open>round_up_to_8\<close>: the least multiple of
  eight that is not below \<open>x\<close>.
\<close>

definition round_up_to_8 :: "int \<Rightarrow> int" where
  "round_up_to_8 x = ((x + 7) div 8) * 8"

text \<open>The code after the loop (lines 178 to 202).\<close>

definition Mem_Alloc_split :: "int \<Rightarrow> int \<Rightarrow> addr \<Rightarrow> heap \<Rightarrow> fault + addr \<times> heap" where
  "Mem_Alloc_split sz minSize minBlock h =
     (if minSize \<noteq> - 1 then
        (case load h minBlock of
           Inl e \<Rightarrow> Inl e
         | Inr w \<Rightarrow>
             (case store h minBlock (if w AND 2 = 2 then int32 (sz + 3) else int32 (sz + 1)) of
                Inl e \<Rightarrow> Inl e
              | Inr h1 \<Rightarrow>
                  (case store h1 (hdr_add minBlock sz) (int32 (int32 (minSize - sz) + 2)) of
                     Inl e \<Rightarrow> Inl e
                   | Inr h2 \<Rightarrow>
                       (case store h2 (hdr_add (hdr_add minBlock minSize) (- 4))
                               (int32 (minSize - sz)) of
                          Inl e \<Rightarrow> Inl e
                        | Inr h3 \<Rightarrow> Inr (hdr_add minBlock 4, h3)))))
      else Inr (NULL, h))"

text \<open>
  The search loop (lines 96 to 175), with the same result convention as
  \<open>Mem_Dump_loop\<close>. Only the branches for a busy block and for a free block that is
  too small advance \<open>ptr\<close>.
\<close>

partial_function (option) Mem_Alloc_loop ::
  "int \<Rightarrow> addr \<Rightarrow> int \<Rightarrow> addr \<Rightarrow> heap \<Rightarrow> (fault + addr \<times> heap) option"
where
  "Mem_Alloc_loop sz ptr minSize minBlock h =
     (case load h ptr of
        Inl e \<Rightarrow> Some (Inl e)
      | Inr w \<Rightarrow>
          if w \<noteq> 1 then
            if w AND 1 = 1 then
              if w AND 3 = 3 then
                Mem_Alloc_loop sz (hdr_add ptr (int32 (w - 3))) minSize minBlock h
              else
                (case Mem_Dump h of
                   None \<Rightarrow> None
                 | Some (Inl e) \<Rightarrow> Some (Inl e)
                 | Some (Inr _) \<Rightarrow>
                     Mem_Alloc_loop sz (hdr_add ptr (int32 (w - 1))) minSize minBlock h)
            else if w > int32 (sz + 2) then
              if minSize = - 1 then Mem_Alloc_loop sz ptr (int32 (w - 2)) ptr h
              else if w AND 2 = 2 then
                if int32 (w - 2) < minSize then Mem_Alloc_loop sz ptr (int32 (w - 2)) ptr h
                else Mem_Alloc_loop sz ptr minSize minBlock h
              else
                if w < minSize then Mem_Alloc_loop sz ptr w ptr h
                else Mem_Alloc_loop sz ptr minSize minBlock h
            else if w = sz \<or> int32 (w - 2) = sz then
              (case store h ptr (int32 (w + 1)) of
                 Inl e \<Rightarrow> Some (Inl e)
               | Inr h' \<Rightarrow> Some (Inr (hdr_add ptr 4, h')))
            else if w AND 2 = 2 then
              Mem_Alloc_loop sz (hdr_add ptr (int32 (w - 2))) minSize minBlock h
            else
              Mem_Alloc_loop sz (hdr_add ptr w) minSize minBlock h
          else Some (Mem_Alloc_split sz minSize minBlock h))"

definition Mem_Alloc :: "int \<Rightarrow> heap \<Rightarrow> (fault + addr \<times> heap) option" where
  "Mem_Alloc sz h =
     (if sz = 0 then Some (Inr (NULL, h))
      else Mem_Alloc_loop (round_size sz) (first_blk h) (- 1) (first_blk h) h)"

section \<open>Mem\_Free\<close>

text \<open>Every statement of the body but \<open>return 0\<close> is commented out.\<close>

definition Mem_Free :: "addr \<Rightarrow> heap \<Rightarrow> int \<times> heap" where
  "Mem_Free ptr h = (0, h)"

section \<open>Mem\_Init\<close>

text \<open>
  What the operating system answers during one call: the page size, the descriptor
  from \<open>open\<close> (\<open>-1\<close> on failure) and the address from \<open>mmap\<close> (\<open>MAP_FAILED\<close> on
  failure).
\<close>

record os =
  getpagesize :: int
  open_dev_zero :: int
  mmap :: addr

text \<open>A fresh mapping of \<open>len\<close> zero bytes at \<open>base\<close>, as aligned four-byte slots.\<close>

definition map_zero :: "addr \<Rightarrow> int \<Rightarrow> (addr \<rightharpoonup> int) \<Rightarrow> (addr \<rightharpoonup> int)" where
  "map_zero base len m =
     (\<lambda>a. if base \<le> a \<and> a + 4 \<le> base + len \<and> (a - base) mod 4 = 0 then Some 0 else m a)"

text \<open>Lines 342 to 345: the requested size padded to a multiple of the page size.\<close>

definition padded_size :: "int \<Rightarrow> int \<Rightarrow> int" where
  "padded_size pagesize sizeOfRegion =
     (let padsize = cmod sizeOfRegion pagesize;
          padsize = cmod (int32 (pagesize - padsize)) pagesize
      in int32 (sizeOfRegion + padsize))"

definition Mem_Init :: "os \<Rightarrow> int \<Rightarrow> heap \<Rightarrow> fault + int \<times> heap" where
  "Mem_Init sys sizeOfRegion h =
     (if 0 \<noteq> allocated_once h then Inr (- 1, h)
      else if sizeOfRegion \<le> 0 then Inr (- 1, h)
      else
        let pagesize = getpagesize sys in
        if pagesize = 0 then Inl DivideByZero
        else
          let alloc_size = padded_size pagesize sizeOfRegion in
          if - 1 = open_dev_zero sys then Inr (- 1, h)
          else
            let space_ptr = mmap sys in
            if MAP_FAILED = space_ptr then Inr (- 1, h\<lparr>allocated_once := 0\<rparr>)
            else
              let h0 = h\<lparr>allocated_once := 1, mem := map_zero space_ptr alloc_size (mem h)\<rparr>;
                  alloc_size = int32 (alloc_size - 8);
                  first = hdr_add space_ptr 1;
                  h1 = h0\<lparr>first_blk := first\<rparr>;
                  end_mark = first + alloc_size
              in
              (case store h1 first alloc_size of
                 Inl e \<Rightarrow> Inl e
               | Inr h2 \<Rightarrow>
                   (case store h2 first (int32 (alloc_size + 2)) of
                      Inl e \<Rightarrow> Inl e
                    | Inr h3 \<Rightarrow>
                        (case store h3 end_mark 1 of
                           Inl e \<Rightarrow> Inl e
                         | Inr h4 \<Rightarrow>
                             (case store h4 (first + alloc_size - 4) alloc_size of
                                Inl e \<Rightarrow> Inl e
                              | Inr h5 \<Rightarrow> Inr (0, h5))))))"

section \<open>Client programs\<close>

text \<open>
  A client is a sequence of calls of the four public functions. A run stops at the
  first call that faults or does not return.
\<close>

datatype call = Init os int | Alloc int | Free addr | Dump

fun step :: "call \<Rightarrow> heap \<Rightarrow> (fault + heap) option" where
  "step (Init sys n) h =
     (case Mem_Init sys n h of Inl e \<Rightarrow> Some (Inl e) | Inr (_, h') \<Rightarrow> Some (Inr h'))"
| "step (Alloc n) h =
     (case Mem_Alloc n h of
        None \<Rightarrow> None
      | Some (Inl e) \<Rightarrow> Some (Inl e)
      | Some (Inr (_, h')) \<Rightarrow> Some (Inr h'))"
| "step (Free p) h = Some (Inr (snd (Mem_Free p h)))"
| "step Dump h =
     (case Mem_Dump h of
        None \<Rightarrow> None
      | Some (Inl e) \<Rightarrow> Some (Inl e)
      | Some (Inr _) \<Rightarrow> Some (Inr h))"

fun run :: "call list \<Rightarrow> heap \<Rightarrow> (fault + heap) option" where
  "run [] h = Some (Inr h)"
| "run (c # cs) h =
     (case step c h of
        None \<Rightarrow> None
      | Some (Inl e) \<Rightarrow> Some (Inl e)
      | Some (Inr h') \<Rightarrow> run cs h')"

section \<open>Reading the block chain\<close>

text \<open>
  The rows printed by \<open>Mem_Dump\<close> are the blocks of the chain. They are contiguous
  from \<open>p\<close> when each block begins where the one before it ends.
\<close>

fun contiguous :: "addr \<Rightarrow> row list \<Rightarrow> bool" where
  "contiguous p [] = True"
| "contiguous p (r # rs) =
     (t_begin r = p \<and> 0 < t_size r \<and> t_end r = p + t_size r - 1 \<and>
      contiguous (p + t_size r) rs)"

text \<open>The sum of the block sizes of the chain, and whether the chain is contiguous.\<close>

definition chain_total :: "heap \<Rightarrow> int option" where
  "chain_total h =
     (case Mem_Dump h of
        Some (Inr r) \<Rightarrow> Some (sum_list (map t_size (rows r)))
      | _ \<Rightarrow> None)"

definition chain_contiguous :: "heap \<Rightarrow> bool" where
  "chain_contiguous h =
     (case Mem_Dump h of
        Some (Inr r) \<Rightarrow> contiguous (first_blk h) (rows r)
      | _ \<Rightarrow> False)"

text \<open>The size that the specification calls the value rounded up to the page size.\<close>

definition round_up_to_page :: "int \<Rightarrow> int \<Rightarrow> int" where
  "round_up_to_page n pagesize = ((n + pagesize - 1) div pagesize) * pagesize"

text \<open>
  The search loop is stuck at \<open>ptr\<close> when the word there is the header of a free block
  that is larger than the request: that branch of the loop does not move \<open>ptr\<close>.
\<close>

definition stuck :: "int \<Rightarrow> addr \<Rightarrow> heap \<Rightarrow> bool" where
  "stuck sz ptr h =
     (case load h ptr of
        Inl _ \<Rightarrow> False
      | Inr w \<Rightarrow> w \<noteq> 1 \<and> w AND 1 \<noteq> 1 \<and> int32 (sz + 2) < w)"

text \<open>
  The shape of the heap once \<open>Mem_Init\<close> has succeeded: a region of \<open>a + 8\<close> bytes
  at \<open>base\<close>, the first block at \<open>base + 4\<close> with a header for \<open>a\<close> bytes, free or
  busy, and the end mark right after it.
\<close>

definition laid_out :: "addr \<Rightarrow> int \<Rightarrow> heap \<Rightarrow> bool" where
  "laid_out base a h \<longleftrightarrow>
     allocated_once h = 1 \<and> first_blk h = base + 4 \<and>
     0 \<le> a \<and> a mod 8 = 0 \<and> a + 8 < 2147483648 \<and>
     (\<forall>p. mem h p \<noteq> None \<longleftrightarrow> base \<le> p \<and> p + 4 \<le> base + a + 8 \<and> (p - base) mod 4 = 0) \<and>
     mem h (base + 4 + a) = Some 1 \<and>
     (0 < a \<longrightarrow> mem h (base + 4) = Some (a + 2) \<or> mem h (base + 4) = Some (a + 3))"

section \<open>A concrete system\<close>

text \<open>Pages of 4096 bytes; \<open>open\<close> and \<open>mmap\<close> succeed.\<close>

definition linux :: os where
  "linux = \<lparr>getpagesize = 4096, open_dev_zero = 3, mmap = 1048576\<rparr>"

text \<open>The heap after \<open>Mem_Init(4096)\<close>: one free block of 4088 bytes.\<close>

definition heap_fresh :: heap where
  "heap_fresh =
     \<lparr>first_blk = 1048580, allocated_once = 1,
      mem = (map_zero 1048576 4096 Map.empty)
              (1048580 \<mapsto> 4090, 1052668 \<mapsto> 1, 1052664 \<mapsto> 4088)\<rparr>"

text \<open>The same heap after \<open>Mem_Alloc(4084)\<close> has taken the whole block.\<close>

definition heap_full :: heap where
  "heap_full = heap_fresh\<lparr>mem := (mem heap_fresh)(1048580 \<mapsto> 4091)\<rparr>"

text \<open>
  A system with pages of 16 bytes, and the heap after \<open>Mem_Init(16)\<close> there: one free
  block of 8 bytes.
\<close>

definition tiny :: os where
  "tiny = \<lparr>getpagesize = 16, open_dev_zero = 3, mmap = 1048576\<rparr>"

definition heap_tiny :: heap where
  "heap_tiny =
     \<lparr>first_blk = 1048580, allocated_once = 1,
      mem = (map_zero 1048576 16 Map.empty)
              (1048580 \<mapsto> 10, 1048588 \<mapsto> 1, 1048584 \<mapsto> 8)\<rparr>"

section \<open>Arithmetic of the model\<close>

lemma and2: "(x::int) AND 2 = 2 * (x div 2 mod 2)"
  by (subst and_int_rec) (simp add: and_one_eq)
lemma and1: "(x::int) AND 1 = x mod 2"
  by (simp add: and_one_eq)
lemma and3: "(x::int) AND 3 = x mod 4"
  using take_bit_eq_mask[of 2 x] by (simp add: take_bit_eq_mod mask_eq_exp_minus_1)

lemma int32_id: "- 2147483648 \<le> x \<Longrightarrow> x < 2147483648 \<Longrightarrow> int32 x = x"
  by (simp add: int32_def)

lemma int32_range: "- 2147483648 \<le> int32 x \<and> int32 x < 2147483648"
  unfolding int32_def
  using pos_mod_bound[of 4294967296 "x + 2147483648"] pos_mod_sign[of 4294967296 "x + 2147483648"]
  by linarith

lemma round_up_arith:
  fixes n ps :: int
  assumes "0 < ps" "0 < n"
  shows "n + (ps - n mod ps) mod ps = ((n + ps - 1) div ps) * ps"
proof -
  define q where "q = n div ps"
  define r where "r = n mod ps"
  have n: "n = r + ps * q" by (simp add: q_def r_def)
  have r: "0 \<le> r" "r < ps" using assms by (simp_all add: r_def)
  show ?thesis
  proof (cases "r = 0")
    case True
    have "(n + ps - 1) div ps = ((ps - 1) + ps * q) div ps" using n True by (simp add: algebra_simps)
    also have "\<dots> = q + (ps - 1) div ps" using assms by (subst div_mult_self2) simp_all
    also have "(ps - 1) div ps = 0" using assms by (simp add: div_pos_pos_trivial)
    finally have "(n + ps - 1) div ps = q" by simp
    moreover have "(ps - n mod ps) mod ps = 0" using True by (simp add: r_def)
    ultimately show ?thesis using n True by simp
  next
    case False
    have "(n + ps - 1) div ps = ((r - 1) + ps * (q + 1)) div ps" using n by (simp add: algebra_simps)
    also have "\<dots> = (q + 1) + (r - 1) div ps" using assms by (subst div_mult_self2) simp_all
    also have "(r - 1) div ps = 0" using r False by (simp add: div_pos_pos_trivial)
    finally have "(n + ps - 1) div ps = q + 1" by simp
    moreover have "(ps - r) mod ps = ps - r" using r False by (intro mod_pos_pos_trivial) linarith+
    ultimately show ?thesis using n unfolding r_def[symmetric] by (simp only: algebra_simps)
  qed
qed

lemma round_up_ge:
  fixes n ps :: int
  assumes "0 < ps" "0 < n"
  shows "ps \<le> round_up_to_page n ps" "n \<le> round_up_to_page n ps"
proof -
  have e: "round_up_to_page n ps = n + (ps - n mod ps) mod ps"
    using round_up_arith[OF assms] by (simp add: round_up_to_page_def)
  show "n \<le> round_up_to_page n ps" using assms unfolding e by simp
  have "0 < (n + ps - 1) div ps"
    using assms pos_imp_zdiv_pos_iff[of ps "n + ps - 1"] by linarith
  then have "1 \<le> (n + ps - 1) div ps" by linarith
  then have "ps * 1 \<le> ps * ((n + ps - 1) div ps)" using assms by (intro mult_left_mono) simp_all
  then show "ps \<le> round_up_to_page n ps" by (simp add: round_up_to_page_def mult.commute)
qed

lemma padded_size_eq:
  assumes "0 < ps" "0 < n" "round_up_to_page n ps < 2147483648"
  shows "padded_size ps n = round_up_to_page n ps"
proof -
  have c1: "cmod n ps = n mod ps" using assms by (simp add: cmod_def)
  have b: "0 < ps - n mod ps" "ps - n mod ps \<le> ps" using assms by simp_all
  have ps: "ps < 2147483648" using round_up_ge(1)[OF assms(1,2)] assms(3) by simp
  have i1: "int32 (ps - n mod ps) = ps - n mod ps" using b ps by (intro int32_id) simp_all
  have c2: "cmod (ps - n mod ps) ps = (ps - n mod ps) mod ps" using assms b by (simp add: cmod_def)
  have e: "round_up_to_page n ps = n + (ps - n mod ps) mod ps"
    using round_up_arith[OF assms(1,2)] by (simp add: round_up_to_page_def)
  have "0 \<le> (ps - n mod ps) mod ps" using assms(1) by (intro pos_mod_sign)
  then have "int32 (n + (ps - n mod ps) mod ps) = n + (ps - n mod ps) mod ps"
    using assms e by (intro int32_id) linarith+
  then show ?thesis by (simp add: padded_size_def c1 i1 c2 e Let_def)
qed

section \<open>The search loop does not return from a large free block\<close>

lemma loop_stuck:
  assumes "stuck sz ptr h"
  shows "Mem_Alloc_loop sz ptr minSize minBlock h = None"
proof (rule ccontr)
  assume "Mem_Alloc_loop sz ptr minSize minBlock h \<noteq> None"
  then obtain y where y: "Mem_Alloc_loop sz ptr minSize minBlock h = Some y" by blast
  have "\<not> stuck sz ptr h"
  proof (rule Mem_Alloc_loop.raw_induct[where P = "\<lambda>sz ptr ms mb h y. \<not> stuck sz ptr h", OF _ y], goal_cases)
    case (1 f sz ptr ms mb h y)
    show ?case
    proof
      assume s: "stuck sz ptr h"
      then obtain w where w: "load h ptr = Inr w" "w \<noteq> 1" "w AND 1 \<noteq> 1" "int32 (sz + 2) < w"
        unfolding stuck_def by (auto split: sum.splits)
      from 1(2) w obtain ms' mb' where "f sz ptr ms' mb' h = Some y"
        by (auto split: if_splits)
      from 1(1)[OF this] s show False by blast
    qed
  qed
  with assms show False by blast
qed

section \<open>Heaps produced by Mem\_Init\<close>

lemma laid_out_mapped:
  assumes "laid_out base a h"
  shows "mem h p \<noteq> None \<longleftrightarrow> base \<le> p \<and> p + 4 \<le> base + a + 8 \<and> (p - base) mod 4 = 0"
proof -
  from assms have "\<forall>p. mem h p \<noteq> None \<longleftrightarrow> base \<le> p \<and> p + 4 \<le> base + a + 8 \<and> (p - base) mod 4 = 0"
    unfolding laid_out_def by (elim conjE) assumption
  then show ?thesis by (rule spec)
qed

lemma laid_outD:
  assumes "laid_out base a h"
  shows "allocated_once h = 1" "first_blk h = base + 4" "0 \<le> a" "a mod 8 = 0"
    "a + 8 < 2147483648" "mem h (base + 4 + a) = Some 1"
    "0 < a \<longrightarrow> mem h (base + 4) = Some (a + 2) \<or> mem h (base + 4) = Some (a + 3)"
  using assms unfolding laid_out_def by - ((elim conjE, assumption)+)

lemma laid_out_unmapped:
  assumes "laid_out base a h" "0 < a"
  shows "load h (base + 4 + 4 * a) = Inl Segfault"
proof -
  have "\<not> (base + 4 + 4 * a + 4 \<le> base + a + 8)" using assms(2) by linarith
  then have "\<not> mem h (base + 4 + 4 * a) \<noteq> None"
    unfolding laid_out_mapped[OF assms(1)] by blast
  then show ?thesis by (simp add: load_def)
qed

lemma laid_out_end_mark:
  assumes "laid_out base a h"
  shows "load h (base + 4 + a) = Inr 1"
  using laid_outD(6)[OF assms] by (simp add: load_def)

lemma bits_free:
  fixes a :: int
  assumes "a mod 8 = 0"
  shows "(a + 2) AND 1 = 0" "(a + 2) AND 2 = 2"
  using assms unfolding and1 and2 by presburger+

lemma bits_busy:
  fixes a :: int
  assumes "a mod 8 = 0"
  shows "(a + 3) AND 1 = 1" "(a + 3) AND 3 = 3" "(a + 3 - 1) AND 2 = 2"
  using assms unfolding and1 and2 and3 by presburger+

subsection \<open>Mem\_Dump on such a heap\<close>

lemma dump_loop_end:
  assumes "load h p = Inr 1"
  shows "Mem_Dump_loop h p c b f out = Some (Inr \<lparr>rows = out, busy_size = b, free_size = f\<rparr>)"
  by (subst Mem_Dump_loop.simps) (simp add: assms)

lemma dump_loop_free:
  assumes "load h p = Inr w" "w \<noteq> 1" "w AND 1 = 0" "w AND 2 = 2"
  shows "Mem_Dump_loop h p c b f out =
         Mem_Dump_loop h (p + int32 (w - 2)) (int32 (c + 1)) b (int32 (f + int32 (w - 2)))
           (out @ [\<lparr>counter = c, status = ''Free'', p_status = ''Busy'',
                    t_begin = p, t_end = p + int32 (w - 2) - 1, t_size = int32 (w - 2)\<rparr>])"
  by (subst Mem_Dump_loop.simps) (simp add: assms Let_def)

lemma dump_loop_busy:
  assumes "load h p = Inr w" "w \<noteq> 1" "w AND 1 = 1" "int32 (w - 1) AND 2 = 2"
  shows "Mem_Dump_loop h p c b f out =
         Mem_Dump_loop h (p + int32 (int32 (w - 1) - 2)) (int32 (c + 1))
           (int32 (b + int32 (int32 (w - 1) - 2))) f
           (out @ [\<lparr>counter = c, status = ''Busy'', p_status = ''Busy'',
                    t_begin = p, t_end = p + int32 (int32 (w - 1) - 2) - 1,
                    t_size = int32 (int32 (w - 1) - 2)\<rparr>])"
  by (subst Mem_Dump_loop.simps) (simp add: assms Let_def)

lemma dump_empty:
  assumes "laid_out base 0 h"
  shows "Mem_Dump h = Some (Inr \<lparr>rows = [], busy_size = 0, free_size = 0\<rparr>)"
proof -
  have f: "first_blk h = base + 4" using assms(1) by (rule laid_outD)
  have l: "load h (base + 4) = Inr 1" using laid_out_end_mark[OF assms] by simp
  show ?thesis unfolding Mem_Dump_def f by (rule dump_loop_end[OF l])
qed

lemma dump_free:
  assumes "laid_out base a h" "0 < a" "mem h (base + 4) = Some (a + 2)"
  shows "Mem_Dump h = Some (Inr \<lparr>rows = [\<lparr>counter = 1, status = ''Free'', p_status = ''Busy'',
            t_begin = base + 4, t_end = base + 4 + a - 1, t_size = a\<rparr>], busy_size = 0, free_size = a\<rparr>)"
proof -
  have f: "first_blk h = base + 4" using assms(1) by (rule laid_outD)
  have a: "a mod 8 = 0" "a + 8 < 2147483648" using assms(1) by (rule laid_outD)+
  have l: "load h (base + 4) = Inr (a + 2)" using assms(3) by (simp add: load_def)
  have i: "int32 (a + 2 - 2) = a" using a assms(2) by (simp add: int32_id)
  have j: "int32 (0 + a) = a" using a assms(2) by (simp add: int32_id)
  have n: "a + 2 \<noteq> 1" using assms(2) by simp
  show ?thesis unfolding Mem_Dump_def f
    by (simp only: dump_loop_free[OF l n bits_free[OF a(1)]] i j
          dump_loop_end[OF laid_out_end_mark[OF assms(1)]] append_Nil)
qed

lemma dump_busy:
  assumes "laid_out base a h" "0 < a" "mem h (base + 4) = Some (a + 3)"
  shows "Mem_Dump h = Some (Inr \<lparr>rows = [\<lparr>counter = 1, status = ''Busy'', p_status = ''Busy'',
            t_begin = base + 4, t_end = base + 4 + a - 1, t_size = a\<rparr>], busy_size = a, free_size = 0\<rparr>)"
proof -
  have f: "first_blk h = base + 4" using assms(1) by (rule laid_outD)
  have a: "a mod 8 = 0" "a + 8 < 2147483648" using assms(1) by (rule laid_outD)+
  have l: "load h (base + 4) = Inr (a + 3)" using assms(3) by (simp add: load_def)
  have i1: "int32 (a + 3 - 1) = a + 2" using a assms(2) by (simp add: int32_id)
  have i: "int32 (a + 2 - 2) = a" using a assms(2) by (simp add: int32_id)
  have j: "int32 (0 + a) = a" using a assms(2) by (simp add: int32_id)
  have n: "a + 3 \<noteq> 1" using assms(2) by simp
  have b2: "int32 (a + 3 - 1) AND 2 = 2" unfolding i1 by (rule bits_free[OF a(1)])
  show ?thesis unfolding Mem_Dump_def f
    by (simp only: dump_loop_busy[OF l n bits_busy(1)[OF a(1)] b2] i1 i j
          dump_loop_end[OF laid_out_end_mark[OF assms(1)]] append_Nil)
qed

subsection \<open>Mem\_Alloc on such a heap\<close>

lemma loop_fault:
  assumes "load h p = Inl e"
  shows "Mem_Alloc_loop sz p ms mb h = Some (Inl e)"
  by (subst Mem_Alloc_loop.simps) (simp add: assms)

lemma loop_end:
  assumes "load h p = Inr 1"
  shows "Mem_Alloc_loop sz p ms mb h = Some (Mem_Alloc_split sz ms mb h)"
  by (subst Mem_Alloc_loop.simps) (simp add: assms)

lemma loop_busy:
  assumes "load h p = Inr w" "w \<noteq> 1" "w AND 1 = 1" "w AND 3 = 3"
  shows "Mem_Alloc_loop sz p ms mb h = Mem_Alloc_loop sz (hdr_add p (int32 (w - 3))) ms mb h"
  by (subst Mem_Alloc_loop.simps) (simp add: assms)

lemma loop_exact:
  assumes "load h p = Inr w" "w \<noteq> 1" "w AND 1 \<noteq> 1" "\<not> int32 (sz + 2) < w"
    "w = sz \<or> int32 (w - 2) = sz"
  shows "Mem_Alloc_loop sz p ms mb h =
         (case store h p (int32 (w + 1)) of
            Inl e \<Rightarrow> Some (Inl e)
          | Inr h' \<Rightarrow> Some (Inr (hdr_add p 4, h')))"
  by (subst Mem_Alloc_loop.simps) (simp add: assms)

lemma loop_small:
  assumes "load h p = Inr w" "w \<noteq> 1" "w AND 1 \<noteq> 1" "\<not> int32 (sz + 2) < w"
    "\<not> (w = sz \<or> int32 (w - 2) = sz)" "w AND 2 = 2"
  shows "Mem_Alloc_loop sz p ms mb h = Mem_Alloc_loop sz (hdr_add p (int32 (w - 2))) ms mb h"
  by (subst Mem_Alloc_loop.simps) (simp add: assms)

lemma laid_out_mark_busy:
  assumes L: "laid_out base a h" and a: "0 < a"
  shows "laid_out base a (h\<lparr>mem := (mem h)(base + 4 \<mapsto> a + 3)\<rparr>)"
proof -
  note D = laid_outD[OF L]
  have m: "(((mem h)(base + 4 \<mapsto> a + 3)) p \<noteq> None) =
           (base \<le> p \<and> p + 4 \<le> base + a + 8 \<and> (p - base) mod 4 = 0)" for p
  proof (cases "p = base + 4")
    case True
    then show ?thesis using a by simp
  next
    case False
    then show ?thesis using laid_out_mapped[OF L, of p] by simp
  qed
  have e: "((mem h)(base + 4 \<mapsto> a + 3)) (base + 4 + a) = Some 1"
    using D(6) a by simp
  show ?thesis
    unfolding laid_out_def
    using D(1,2,3,4,5) m e by simp
qed

lemma alloc_laid_out:
  assumes L: "laid_out base a h" and A: "Mem_Alloc s h = Some (Inr (p, h'))"
  shows "laid_out base a h'"
proof (cases "s = 0")
  case True
  with A have "h' = h" by (simp add: Mem_Alloc_def)
  with L show ?thesis by simp
next
  case s: False
  note D = laid_outD[OF L]
  define sz where "sz = round_size s"
  have A': "Mem_Alloc_loop sz (base + 4) (- 1) (base + 4) h = Some (Inr (p, h'))"
    using A s D(2) by (simp add: Mem_Alloc_def sz_def)
  show ?thesis
  proof (cases "a = 0")
    case True
    then have "load h (base + 4) = Inr 1" using laid_out_end_mark[OF L] by simp
    from loop_end[OF this] A' have "Mem_Alloc_split sz (- 1) (base + 4) h = Inr (p, h')" by simp
    then have "h' = h" by (simp add: Mem_Alloc_split_def)
    with L show ?thesis by simp
  next
    case False
    with D(3) have a: "0 < a" by simp
    have ia: "int32 a = a" using a D(5) by (simp add: int32_id)
    have far: "Mem_Alloc_loop sz (hdr_add (base + 4) a) (- 1) (base + 4) h = Some (Inl Segfault)"
      using loop_fault[OF laid_out_unmapped[OF L a]] by (simp add: hdr_add_def)
    from D(7) a consider (free) "mem h (base + 4) = Some (a + 2)" | (busy) "mem h (base + 4) = Some (a + 3)"
      by blast
    then show ?thesis
    proof cases
      case free
      then have l: "load h (base + 4) = Inr (a + 2)" by (simp add: load_def)
      have n: "a + 2 \<noteq> 1" using a by simp
      have b1: "(a + 2) AND 1 \<noteq> 1" using bits_free(1)[OF D(4)] by simp
      show ?thesis
      proof (cases "int32 (sz + 2) < a + 2")
        case True
        then have "stuck sz (base + 4) h" using l n b1 by (simp add: stuck_def)
        from loop_stuck[OF this] A' show ?thesis by simp
      next
        case big: False
        show ?thesis
        proof (cases "a + 2 = sz \<or> int32 (a + 2 - 2) = sz")
          case True
          have i3: "int32 (a + 2 + 1) = a + 3" using a D(5) by (simp add: int32_id)
          have st: "store h (base + 4) (int32 (a + 2 + 1)) = Inr (h\<lparr>mem := (mem h)(base + 4 \<mapsto> a + 3)\<rparr>)"
            unfolding i3 using free by (simp add: store_def)
          from loop_exact[OF l n b1 big True] A' st
          have "h' = h\<lparr>mem := (mem h)(base + 4 \<mapsto> a + 3)\<rparr>" by simp
          then show ?thesis using laid_out_mark_busy[OF L a] by simp
        next
          case False
          have "Mem_Alloc_loop sz (base + 4) (- 1) (base + 4) h = Some (Inl Segfault)"
            using loop_small[OF l n b1 big False bits_free(2)[OF D(4)]] far ia by simp
          with A' show ?thesis by simp
        qed
      qed
    next
      case busy
      then have l: "load h (base + 4) = Inr (a + 3)" by (simp add: load_def)
      have n: "a + 3 \<noteq> 1" using a by simp
      have "Mem_Alloc_loop sz (base + 4) (- 1) (base + 4) h = Some (Inl Segfault)"
        using loop_busy[OF l n bits_busy(1,2)[OF D(4)]] far ia by simp
      with A' show ?thesis by simp
    qed
  qed
qed

subsection \<open>Mem\_Init from the start\<close>

lemma padded_size_range: "padded_size ps n < 2147483648"
  using int32_range by (simp add: padded_size_def Let_def)

lemma map_zero_Some:
  assumes "base \<le> p" "p + 4 \<le> base + len" "(p - base) mod 4 = 0"
  shows "map_zero base len m p = Some 0"
  using assms by (simp add: map_zero_def)

lemma init_unarmed:
  assumes c: "allocated_once h = 0" and n: "0 < n" and ps: "getpagesize sys \<noteq> 0"
    and op: "open_dev_zero sys \<noteq> - 1" and mm: "mmap sys \<noteq> MAP_FAILED"
    and A: "padded_size (getpagesize sys) n = a + 8" and a: "0 \<le> a" "a mod 4 = 0"
  shows "Mem_Init sys n h =
         Inr (0, h\<lparr>first_blk := mmap sys + 4, allocated_once := 1,
                  mem := (map_zero (mmap sys) (a + 8) (mem h))
                          (mmap sys + 4 \<mapsto> a + 2, mmap sys + 4 + a \<mapsto> 1, mmap sys + 4 + a - 4 \<mapsto> a)\<rparr>)"
proof -
  let ?b = "mmap sys"
  let ?m0 = "map_zero ?b (a + 8) (mem h)"
  have r: "a + 8 < 2147483648" using padded_size_range[of "getpagesize sys" n] A by simp
  have i: "int32 (a + 8 - 8) = a" "int32 (a + 2) = a + 2" using a r by (simp_all add: int32_id)
  have k1: "?m0 (?b + 4) = Some 0" using a by (intro map_zero_Some) simp_all
  have k2: "?m0 (?b + 4 + a) = Some 0"
  proof (rule map_zero_Some)
    show "?b \<le> ?b + 4 + a" using a by linarith
    show "?b + 4 + a + 4 \<le> ?b + (a + 8)" by linarith
    have "?b + 4 + a - ?b = a + 4" by linarith
    moreover have "(a + 4) mod 4 = 0" using a(2) by presburger
    ultimately show "(?b + 4 + a - ?b) mod 4 = 0" by simp
  qed
  have k3: "?m0 (?b + a) = Some 0" using a by (intro map_zero_Some) simp_all
  have f: "hdr_add ?b 1 = ?b + 4" by (simp add: hdr_add_def)
  have mm': "MAP_FAILED \<noteq> mmap sys" "- 1 \<noteq> open_dev_zero sys" using mm op by simp_all
  show ?thesis
    unfolding Mem_Init_def Let_def A f i
    using n ps mm' by (simp add: c store_def k1 k2 k3) (simp add: map_zero_def)
qed

lemma init_startup:
  assumes "0 < n" "getpagesize sys \<noteq> 0" "open_dev_zero sys \<noteq> - 1" "mmap sys \<noteq> MAP_FAILED"
    "padded_size (getpagesize sys) n = a + 8" "0 \<le> a" "a mod 4 = 0"
  shows "Mem_Init sys n startup =
         Inr (0, \<lparr>first_blk = mmap sys + 4, allocated_once = 1,
                  mem = (map_zero (mmap sys) (a + 8) Map.empty)
                          (mmap sys + 4 \<mapsto> a + 2, mmap sys + 4 + a \<mapsto> 1, mmap sys + 4 + a - 4 \<mapsto> a)\<rparr>)"
proof -
  have "allocated_once startup = 0" by (simp add: startup_def)
  from init_unarmed[OF this assms] show ?thesis by (simp add: startup_def)
qed

lemma init_arms:
  assumes "Mem_Init sys n h = Inr (0, h')"
  shows "allocated_once h' = 1"
  using assms
  by (auto simp: Mem_Init_def Let_def store_def split: if_splits sum.splits option.splits)

lemma init_armed:
  assumes "allocated_once h \<noteq> 0"
  shows "Mem_Init sys n h = Inr (- 1, h)"
  using assms by (simp add: Mem_Init_def)

lemma init_nonpositive:
  assumes "n \<le> 0"
  shows "Mem_Init sys n h = Inr (- 1, h)"
  using assms by (simp add: Mem_Init_def)

lemma init_no_dev_zero:
  assumes "allocated_once h = 0" "getpagesize sys \<noteq> 0" "open_dev_zero sys = - 1"
  shows "Mem_Init sys n h = Inr (- 1, h)"
  using assms by (simp add: Mem_Init_def Let_def)

lemma init_no_mmap:
  assumes "allocated_once h = 0" "getpagesize sys \<noteq> 0" "mmap sys = MAP_FAILED"
  shows "Mem_Init sys n h = Inr (- 1, h)"
proof -
  have "h\<lparr>allocated_once := 0\<rparr> = h" using assms(1) by simp
  then show ?thesis using assms by (simp add: Mem_Init_def Let_def)
qed

lemma init_failed_unarmed:
  assumes "allocated_once h = 0" "Mem_Init sys n h = Inr (- 1, h')"
  shows "h' = h"
  using assms
  by (auto simp: Mem_Init_def Let_def store_def split: if_splits sum.splits option.splits)

lemma init_linux_unarmed:
  assumes "allocated_once h = 0"
  shows "\<exists>h''. Mem_Init linux 4096 h = Inr (0, h'')"
proof -
  have A: "padded_size (getpagesize linux) 4096 = 4088 + 8"
    by (simp add: padded_size_def linux_def cmod_def int32_def Let_def)
  have "Mem_Init linux 4096 h = Inr (0, h\<lparr>first_blk := mmap linux + 4, allocated_once := 1,
                  mem := (map_zero (mmap linux) (4088 + 8) (mem h))
                          (mmap linux + 4 \<mapsto> 4088 + 2, mmap linux + 4 + 4088 \<mapsto> 1,
                           mmap linux + 4 + 4088 - 4 \<mapsto> 4088)\<rparr>)"
    by (rule init_unarmed[OF assms _ _ _ _ A]) (simp_all add: linux_def MAP_FAILED_def)
  then show ?thesis by blast
qed


lemma init_success:
  assumes "Mem_Init sys n h = Inr (0, h')"
  shows "0 < n" "open_dev_zero sys \<noteq> - 1" "mmap sys \<noteq> MAP_FAILED" "allocated_once h = 0"
proof -
  show c: "allocated_once h = 0"
    using assms by (rule contrapos_pp) (simp add: Mem_Init_def)
  show n: "0 < n"
    using assms c by (rule_tac ccontr) (simp add: Mem_Init_def)
  show "open_dev_zero sys \<noteq> - 1"
    using assms c n by (rule_tac notI) (simp add: Mem_Init_def Let_def split: if_splits)
  show "mmap sys \<noteq> MAP_FAILED"
    using assms c n by (rule_tac notI) (simp add: Mem_Init_def Let_def split: if_splits)
qed

lemma laid_out_initial:
  assumes a: "0 \<le> a" "a mod 8 = 0" "a + 8 < 2147483648"
  shows "laid_out b a \<lparr>first_blk = b + 4, allocated_once = 1,
                  mem = (map_zero b (a + 8) Map.empty)
                          (b + 4 \<mapsto> a + 2, b + 4 + a \<mapsto> 1, b + 4 + a - 4 \<mapsto> a)\<rparr>"
proof -
  let ?m = "(map_zero b (a + 8) Map.empty)(b + 4 \<mapsto> a + 2, b + 4 + a \<mapsto> 1, b + 4 + a - 4 \<mapsto> a)"
  have a4: "a mod 4 = 0" using a(2) by presburger
  have m: "(?m p \<noteq> None) = (b \<le> p \<and> p + 4 \<le> b + a + 8 \<and> (p - b) mod 4 = 0)" for p
  proof -
    consider "p = b + 4" | "p = b + 4 + a" | "p = b + a" | "p \<noteq> b + 4" "p \<noteq> b + 4 + a" "p \<noteq> b + a"
      by blast
    then show ?thesis
    proof cases
      case 1
      then show ?thesis using a(1) by simp
    next
      case 2
      have "(a + 4) mod 4 = 0" using a4 by presburger
      with 2 show ?thesis using a(1) by simp
    next
      case 3
      then show ?thesis using a(1) a4 by simp
    next
      case 4
      then show ?thesis by (simp add: map_zero_def add.assoc)
    qed
  qed
  have e: "?m (b + 4 + a) = Some 1" by simp
  have f: "0 < a \<longrightarrow> ?m (b + 4) = Some (a + 2) \<or> ?m (b + 4) = Some (a + 3)"
  proof
    assume "0 < a"
    with a(2) have "8 \<le> a" by presburger
    then show "?m (b + 4) = Some (a + 2) \<or> ?m (b + 4) = Some (a + 3)" by simp
  qed
  show ?thesis
    unfolding laid_out_def using a m e f by simp
qed

lemma init_laid_out:
  assumes ok: "Mem_Init sys n startup = Inr (0, h)"
    and ps: "0 < getpagesize sys" "getpagesize sys mod 8 = 0"
    and r: "round_up_to_page n (getpagesize sys) < 2147483648"
  shows "laid_out (mmap sys) (round_up_to_page n (getpagesize sys) - 8) h"
proof -
  let ?R = "round_up_to_page n (getpagesize sys)"
  note s = init_success[OF ok]
  have A: "padded_size (getpagesize sys) n = ?R - 8 + 8"
    using padded_size_eq[OF ps(1) s(1) r] by simp
  have "8 \<le> getpagesize sys" using ps by presburger
  then have a0: "0 \<le> ?R - 8" using round_up_ge(1)[OF ps(1) s(1)] by linarith
  have "8 dvd getpagesize sys" using ps(2) by presburger
  then have "8 dvd ?R" unfolding round_up_to_page_def by (rule dvd_mult)
  then have a8: "(?R - 8) mod 8 = 0" by presburger
  then have a4: "(?R - 8) mod 4 = 0" by presburger
  have ps0: "getpagesize sys \<noteq> 0" using ps(1) by simp
  have "h = \<lparr>first_blk = mmap sys + 4, allocated_once = 1,
                  mem = (map_zero (mmap sys) (?R - 8 + 8) Map.empty)
                          (mmap sys + 4 \<mapsto> ?R - 8 + 2, mmap sys + 4 + (?R - 8) \<mapsto> 1,
                           mmap sys + 4 + (?R - 8) - 4 \<mapsto> ?R - 8)\<rparr>"
    using init_startup[OF s(1) ps0 s(2) s(3) A a0 a4] ok by simp
  moreover have "?R - 8 + 8 < 2147483648" using r by simp
  ultimately show ?thesis using laid_out_initial[OF a0 a8] by simp
qed

lemma step_laid_out:
  assumes L: "laid_out base a h" and S: "step c h = Some (Inr h')"
  shows "laid_out base a h'"
proof (cases c)
  case (Init sys n)
  have "Mem_Init sys n h = Inr (- 1, h)" using laid_outD(1)[OF L] by (simp add: Mem_Init_def)
  with S Init have "h' = h" by simp
  with L show ?thesis by simp
next
  case (Alloc n)
  with S obtain p where "Mem_Alloc n h = Some (Inr (p, h'))"
    by (auto split: option.splits sum.splits)
  from alloc_laid_out[OF L this] show ?thesis .
next
  case (Free p)
  with S have "h' = h" by (simp add: Mem_Free_def)
  with L show ?thesis by simp
next
  case Dump
  with S have "h' = h" by (auto split: option.splits sum.splits)
  with L show ?thesis by simp
qed

lemma run_laid_out:
  assumes "laid_out base a h" "run cs h = Some (Inr h')"
  shows "laid_out base a h'"
  using assms
proof (induction cs arbitrary: h)
  case Nil
  then show ?case by simp
next
  case (Cons c cs)
  from Cons.prems(2) obtain h1 where s: "step c h = Some (Inr h1)" and r: "run cs h1 = Some (Inr h')"
    by (auto split: option.splits sum.splits)
  from Cons.IH[OF step_laid_out[OF Cons.prems(1) s] r] show ?case .
qed

lemma dump_laid_out:
  assumes L: "laid_out base a h"
  shows "\<exists>r. Mem_Dump h = Some (Inr r) \<and> contiguous (base + 4) (rows r) \<and>
             sum_list (map t_size (rows r)) = a \<and> busy_size r + free_size r = a"
proof (cases "a = 0")
  case True
  with L have "laid_out base 0 h" by simp
  from dump_empty[OF this] True show ?thesis by simp
next
  case False
  with laid_outD(3)[OF L] have a: "0 < a" by simp
  with laid_outD(7)[OF L] consider "mem h (base + 4) = Some (a + 2)" | "mem h (base + 4) = Some (a + 3)"
    by blast
  then show ?thesis
  proof cases
    case 1
    from dump_free[OF L a 1] a show ?thesis by simp
  next
    case 2
    from dump_busy[OF L a 2] a show ?thesis by simp
  qed
qed

subsection \<open>No public call clears allocated\_once\<close>

lemma store_keeps_flag:
  assumes "store h p v = Inr h'"
  shows "allocated_once h' = allocated_once h"
  using assms by (auto simp: store_def split: option.splits)

lemma split_keeps_flag:
  assumes "Mem_Alloc_split sz ms mb h = Inr (p, h')"
  shows "allocated_once h' = allocated_once h"
proof (cases "ms = - 1")
  case True
  with assms show ?thesis by (simp add: Mem_Alloc_split_def)
next
  case False
  with assms obtain w h1 h2 where
    "store h mb w = Inr h1" "store h1 (hdr_add mb sz) (int32 (int32 (ms - sz) + 2)) = Inr h2"
    "store h2 (hdr_add (hdr_add mb ms) (- 4)) (int32 (ms - sz)) = Inr h'"
    by (auto simp: Mem_Alloc_split_def split: sum.splits if_splits)
  then show ?thesis using store_keeps_flag by metis
qed

lemma loop_keeps_flag:
  assumes "Mem_Alloc_loop sz ptr ms mb h = Some y"
  shows "\<forall>p h'. y = Inr (p, h') \<longrightarrow> allocated_once h' = allocated_once h"
proof (rule Mem_Alloc_loop.raw_induct[where
         P = "\<lambda>sz ptr ms mb h y. \<forall>p h'. y = Inr (p, h') \<longrightarrow> allocated_once h' = allocated_once h",
         OF _ assms], goal_cases)
  case (1 f sz ptr ms mb h y)
  show ?case
  proof (intro allI impI)
    fix p h'
    assume y: "y = Inr (p, h')"
    from 1(2) y consider
        (rec) ptr' ms' mb' where "f sz ptr' ms' mb' h = Some (Inr (p, h'))"
      | (exact) w where "store h ptr w = Inr h'"
      | (split) "Mem_Alloc_split sz ms mb h = Inr (p, h')"
      by (auto split: sum.splits if_splits option.splits)
    then show "allocated_once h' = allocated_once h"
    proof cases
      case rec
      from 1(1)[OF rec] show ?thesis by simp
    next
      case exact
      then show ?thesis by (rule store_keeps_flag)
    next
      case split
      then show ?thesis by (rule split_keeps_flag)
    qed
  qed
qed

lemma step_keeps_armed:
  assumes a: "allocated_once h \<noteq> 0" and s: "step c h = Some (Inr h')"
  shows "allocated_once h' \<noteq> 0"
proof (cases c)
  case (Init sys n)
  with s init_armed[OF a, of sys n] have "h' = h" by simp
  with a show ?thesis by simp
next
  case (Alloc n)
  with s obtain p where m: "Mem_Alloc n h = Some (Inr (p, h'))"
    by (auto split: option.splits sum.splits)
  show ?thesis
  proof (cases "n = 0")
    case True
    with m have "h' = h" by (simp add: Mem_Alloc_def)
    with a show ?thesis by simp
  next
    case False
    with m have "Mem_Alloc_loop (round_size n) (first_blk h) (- 1) (first_blk h) h = Some (Inr (p, h'))"
      by (simp add: Mem_Alloc_def)
    from loop_keeps_flag[OF this] a show ?thesis by simp
  qed
next
  case (Free p)
  with s have "h' = h" by (simp add: Mem_Free_def)
  with a show ?thesis by simp
next
  case Dump
  with s have "h' = h" by (auto split: option.splits sum.splits)
  with a show ?thesis by simp
qed

lemma run_keeps_armed:
  assumes "allocated_once h \<noteq> 0" "run cs h = Some (Inr h')"
  shows "allocated_once h' \<noteq> 0"
  using assms
proof (induction cs arbitrary: h)
  case Nil
  then show ?case by simp
next
  case (Cons c cs)
  from Cons.prems(2) obtain h1 where s: "step c h = Some (Inr h1)" and r: "run cs h1 = Some (Inr h')"
    by (auto split: option.splits sum.splits)
  from Cons.IH[OF step_keeps_armed[OF Cons.prems(1) s] r] show ?case .
qed

section \<open>Evaluation on the concrete heaps\<close>

lemma init_fresh: "Mem_Init linux 4096 startup = Inr (0, heap_fresh)"
  by (simp add: Mem_Init_def linux_def startup_def heap_fresh_def padded_size_def cmod_def int32_def
      MAP_FAILED_def NULL_def hdr_add_def store_def map_zero_def Let_def fun_upd_twist)

text \<open>
  With pages of 16 bytes the block has 8 bytes, and the request -1, which needs 8,
  takes it: the bound of 16 bytes on the region is needed for what is proved about
  negative requests.
\<close>

lemma init_tiny: "Mem_Init tiny 16 startup = Inr (0, heap_tiny)"
  by (simp add: Mem_Init_def tiny_def startup_def heap_tiny_def padded_size_def cmod_def int32_def
      MAP_FAILED_def NULL_def hdr_add_def store_def map_zero_def Let_def fun_upd_twist)

lemma alloc_full: "Mem_Alloc 4084 heap_fresh = Some (Inr (1048596, heap_full))"
  by (simp add: Mem_Alloc_def Mem_Alloc_loop.simps round_size_def heap_fresh_def heap_full_def cmod_def cdiv_def int32_def
       hdr_add_def store_def load_def map_zero_def Let_def)

lemma dump_full_heap: "Mem_Dump heap_full = Some (Inr \<lparr>rows = [\<lparr>counter = 1, status = ''Busy'', p_status = ''Busy'', t_begin = 1048580, t_end = 1052667, t_size = 4088\<rparr>], busy_size = 4088, free_size = 0\<rparr>)"
  by (simp add: Mem_Dump_def Mem_Dump_loop.simps heap_full_def heap_fresh_def int32_def load_def map_zero_def Let_def)

lemma dump_fresh_heap: "Mem_Dump heap_fresh = Some (Inr \<lparr>rows = [\<lparr>counter = 1, status = ''Free'', p_status = ''Busy'', t_begin = 1048580, t_end = 1052667, t_size = 4088\<rparr>], busy_size = 0, free_size = 4088\<rparr>)"
  by (simp add: Mem_Dump_def Mem_Dump_loop.simps heap_full_def heap_fresh_def int32_def load_def map_zero_def Let_def)

lemma alloc_tiny:
  "Mem_Alloc (- 1) heap_tiny = Some (Inr (1048596, heap_tiny\<lparr>mem := (mem heap_tiny)(1048580 \<mapsto> 11)\<rparr>))"
  by (simp add: Mem_Alloc_def Mem_Alloc_loop.simps round_size_def heap_tiny_def cmod_def cdiv_def int32_def
       hdr_add_def store_def load_def map_zero_def Let_def)

lemma stuck_fresh: "sz < 4088 \<Longrightarrow> - 2147483650 \<le> sz \<Longrightarrow> stuck sz 1048580 heap_fresh"
  by (simp add: stuck_def load_def heap_fresh_def int32_def)

lemma run_example:
  "run [Alloc 4084, Free 1048596, Dump, Init linux 4096, Alloc 0] heap_fresh = Some (Inr heap_full)"
proof -
  have "allocated_once heap_full \<noteq> 0" by (simp add: heap_full_def heap_fresh_def)
  then have "Mem_Init linux 4096 heap_full = Inr (- 1, heap_full)" by (rule init_armed)
  moreover have "Mem_Alloc 0 heap_full = Some (Inr (NULL, heap_full))"
    by (simp add: Mem_Alloc_def)
  ultimately show ?thesis
    by (simp add: alloc_full Mem_Free_def dump_full_heap)
qed

section \<open>Rounding a negative request\<close>




lemma round_up_to_8_least:
  "round_up_to_8 x mod 8 = 0 \<and> x \<le> round_up_to_8 x \<and> round_up_to_8 x < x + 8"
proof -
  define q where "q = (x + 7) div 8"
  define r where "r = (x + 7) mod 8"
  have e: "x + 7 = r + 8 * q" by (simp add: q_def r_def)
  have r: "0 \<le> r" "r < 8" by (simp_all add: r_def)
  have "round_up_to_8 x = 8 * q" by (simp add: round_up_to_8_def q_def)
  moreover have "(8 * q) mod 8 = 0" by simp
  moreover have "x \<le> 8 * q" "8 * q < x + 8" using e r by linarith+
  ultimately show ?thesis by simp
qed


section \<open>Requests that are not zero\<close>




section \<open>Properties of Mem\_Free\<close>

text \<open>
  C8: for every argument, null, misaligned or already freed, \<open>Mem_Free\<close> returns 0
  and leaves the variables and every word of memory as they were, so the block chain
  that \<open>Mem_Dump\<close> reads is the same before and after.
\<close>

theorem Mem_Free_inert:
  "Mem_Free ptr h = (0, h) \<and> mem (snd (Mem_Free ptr h)) = mem h \<and>
   Mem_Dump (snd (Mem_Free ptr h)) = Mem_Dump h"
  by (simp add: Mem_Free_def)

text \<open>
  C1 asks \<open>Mem_Free\<close> to fail on a null pointer, on a pointer that is not a multiple
  of eight from the region base, and on a block that is already free. On the heap
  whose only block was handed out at address 1048596, the code returns 0 for the null
  pointer, for the unaligned address 1048597, for the block's pointer and for the same
  pointer a second time.
\<close>

theorem Mem_Free_accepts_bad_pointers:
  "Mem_Alloc 4084 heap_fresh = Some (Inr (1048596, heap_full)) \<and>
   Mem_Free NULL heap_full = (0, heap_full) \<and>
   Mem_Free 1048597 heap_full = (0, heap_full) \<and>
   Mem_Free 1048596 heap_full = (0, heap_full) \<and>
   Mem_Free 1048596 (snd (Mem_Free 1048596 heap_full)) = (0, heap_full)"
  by (simp add: alloc_full Mem_Free_def)

text \<open>
  C2 asks that the chain is one free block again once every allocated pointer has been
  freed. After \<open>Mem_Init(4096)\<close>, \<open>Mem_Alloc(4084)\<close> and \<open>Mem_Free\<close> of the pointer
  it returned, the heap is unchanged by the free and the chain is still one busy block
  of 4088 bytes.
\<close>

theorem freed_block_stays_busy:
  "Mem_Init linux 4096 startup = Inr (0, heap_fresh) \<and>
   Mem_Alloc 4084 heap_fresh = Some (Inr (1048596, heap_full)) \<and>
   snd (Mem_Free 1048596 heap_full) = heap_full \<and>
   Mem_Dump heap_full =
     Some (Inr \<lparr>rows = [\<lparr>counter = 1, status = ''Busy'', p_status = ''Busy'',
                           t_begin = 1048580, t_end = 1052667, t_size = 4088\<rparr>],
                  busy_size = 4088, free_size = 0\<rparr>)"
  by (simp add: init_fresh alloc_full dump_full_heap Mem_Free_def)

section \<open>Properties of Mem\_Alloc\<close>

text \<open>
  C3 asks for the smallest free block that is large enough. After
  \<open>Mem_Init(4096)\<close> the only block is free with header 4090; a request of 36 bytes
  needs 40, the block is large enough, and the search never returns: the branch that
  records a candidate does not advance the pointer.
\<close>

theorem best_fit_search_hangs:
  "Mem_Init linux 4096 startup = Inr (0, heap_fresh) \<and>
   round_size 36 = 40 \<and>
   load heap_fresh (first_blk heap_fresh) = Inr 4090 \<and>
   Mem_Alloc 36 heap_fresh = None"
proof -
  have r: "round_size 36 = 40" by (simp add: round_size_def cmod_def cdiv_def int32_def)
  have f: "first_blk heap_fresh = 1048580" by (simp add: heap_fresh_def)
  have l: "load heap_fresh (first_blk heap_fresh) = Inr 4090" by (simp add: heap_fresh_def load_def)
  have "stuck 40 1048580 heap_fresh" by (rule stuck_fresh) simp_all
  then have "Mem_Alloc 36 heap_fresh = None"
    by (simp add: Mem_Alloc_def r f loop_stuck)
  with init_fresh r l show ?thesis by simp
qed

text \<open>
  C4 asks that a returned pointer is the header address plus four and a multiple of
  eight from the region base. \<open>Mem_Alloc(4084)\<close> on the fresh heap returns the header
  address plus sixteen, which is 20 bytes from the base.
\<close>

theorem payload_pointer_off_by_12:
  "Mem_Init linux 4096 startup = Inr (0, heap_fresh) \<and>
   Mem_Alloc 4084 heap_fresh = Some (Inr (first_blk heap_fresh + 16, heap_full)) \<and>
   first_blk heap_fresh + 16 \<noteq> first_blk heap_fresh + 4 \<and>
   (first_blk heap_fresh + 16 - mmap linux) mod 8 = 4"
proof -
  have f: "first_blk heap_fresh = 1048580" by (simp add: heap_fresh_def)
  have m: "mmap linux = 1048576" by (simp add: linux_def)
  show ?thesis using init_fresh alloc_full by (simp add: f m)
qed

text \<open>
  C5 asks that a candidate larger than the need by a whole block is split. After
  \<open>Mem_Init(4096)\<close> a request of 16 bytes needs 24 and the free block has 4088, so
  it should be split; the call never returns, and the code after the loop is not
  reached.
\<close>

theorem split_never_reached:
  "Mem_Init linux 4096 startup = Inr (0, heap_fresh) \<and>
   round_size 16 = 24 \<and>
   load heap_fresh (first_blk heap_fresh) = Inr (4088 + 2) \<and>
   Mem_Alloc 16 heap_fresh = None"
proof -
  have r: "round_size 16 = 24" by (simp add: round_size_def cmod_def cdiv_def int32_def)
  have f: "first_blk heap_fresh = 1048580" by (simp add: heap_fresh_def)
  have l: "load heap_fresh (first_blk heap_fresh) = Inr (4088 + 2)" by (simp add: heap_fresh_def load_def)
  have "stuck 24 1048580 heap_fresh" by (rule stuck_fresh) simp_all
  then have "Mem_Alloc 16 heap_fresh = None"
    by (simp add: Mem_Alloc_def r f loop_stuck)
  with init_fresh r l show ?thesis by simp
qed




section \<open>Properties of Mem\_Init\<close>

text \<open>
  C7 as stated (the second call of \<open>Mem_Init\<close> in a process fails) does not hold: a
  first call with size 0 fails and leaves the state as it was, and the second call
  succeeds.
\<close>

theorem second_Mem_Init_succeeds:
  "Mem_Init linux 0 startup = Inr (- 1, startup) \<and>
   Mem_Init linux 4096 startup = Inr (0, heap_fresh)"
  by (simp add: init_fresh init_nonpositive)

text \<open>
  C7, amended: \<open>Mem_Init\<close> returns -1 when the requested size is not positive, and it
  returns -1 on every call made after a call that returned 0, whatever public calls
  were made in between.
\<close>

theorem Mem_Init_rejects:
  "(m \<le> 0 \<longrightarrow> Mem_Init sys0 m h0 = Inr (- 1, h0)) \<and>
   (Mem_Init sys n h = Inr (0, h') \<and> run calls h' = Some (Inr h'') \<longrightarrow>
      Mem_Init sys' n' h'' = Inr (- 1, h''))"
proof (intro conjI impI)
  assume "m \<le> 0"
  then show "Mem_Init sys0 m h0 = Inr (- 1, h0)" by (rule init_nonpositive)
next
  assume a: "Mem_Init sys n h = Inr (0, h') \<and> run calls h' = Some (Inr h'')"
  then have "allocated_once h' = 1" using init_arms by blast
  then have "allocated_once h' \<noteq> 0" by simp
  then have "allocated_once h'' \<noteq> 0" using a run_keeps_armed by blast
  then show "Mem_Init sys' n' h'' = Inr (- 1, h'')" by (rule init_armed)
qed

text \<open>Both hypotheses hold on the concrete system.\<close>

theorem Mem_Init_rejects_witness:
  "(0::int) \<le> 0 \<and> Mem_Init linux 0 startup = Inr (- 1, startup) \<and>
   Mem_Init linux 4096 startup = Inr (0, heap_fresh) \<and>
   run [Alloc 4084, Free 1048596, Dump, Init linux 4096, Alloc 0] heap_fresh = Some (Inr heap_full) \<and>
   Mem_Init linux 8192 heap_full = Inr (- 1, heap_full)"
  using Mem_Init_rejects[of 0 linux startup linux 4096 startup heap_fresh
          "[Alloc 4084, Free 1048596, Dump, Init linux 4096, Alloc 0]" heap_full linux 8192]
    init_fresh run_example
  by simp

text \<open>
  C10: a call of \<open>Mem_Init\<close> that fails while \<open>allocated_once\<close> is 0, because the
  size is not positive, \<open>/dev/zero\<close> does not open or \<open>mmap\<close> fails, returns -1 and
  leaves \<open>allocated_once\<close> at 0, and a later call can succeed.
\<close>

theorem failed_Mem_Init_stays_unarmed:
  assumes "allocated_once h = 0"
  shows "(n \<le> 0 \<or> getpagesize sys \<noteq> 0 \<and> (open_dev_zero sys = - 1 \<or> mmap sys = MAP_FAILED)
            \<longrightarrow> Mem_Init sys n h = Inr (- 1, h)) \<and>
         (Mem_Init sys n h = Inr (- 1, h') \<longrightarrow>
            allocated_once h' = 0 \<and> (\<exists>h''. Mem_Init linux 4096 h' = Inr (0, h'')))"
proof (intro conjI impI)
  assume "n \<le> 0 \<or> getpagesize sys \<noteq> 0 \<and> (open_dev_zero sys = - 1 \<or> mmap sys = MAP_FAILED)"
  then show "Mem_Init sys n h = Inr (- 1, h)"
    using init_nonpositive init_no_dev_zero[OF assms] init_no_mmap[OF assms] by blast
next
  assume f: "Mem_Init sys n h = Inr (- 1, h')"
  have e: "h' = h" using assms f by (rule init_failed_unarmed)
  show "allocated_once h' = 0" using assms e by simp
  show "\<exists>h''. Mem_Init linux 4096 h' = Inr (0, h'')"
    unfolding e using assms by (rule init_linux_unarmed)
qed

text \<open>The three causes of failure on the concrete system, and the call that then succeeds.\<close>

theorem failed_Mem_Init_stays_unarmed_witness:
  "allocated_once startup = 0 \<and> Mem_Init linux 0 startup = Inr (- 1, startup) \<and>
   Mem_Init (linux\<lparr>open_dev_zero := - 1\<rparr>) 4096 startup = Inr (- 1, startup) \<and>
   Mem_Init (linux\<lparr>mmap := MAP_FAILED\<rparr>) 4096 startup = Inr (- 1, startup) \<and>
   Mem_Init linux 4096 startup = Inr (0, heap_fresh)"
proof -
  have c: "allocated_once startup = 0" by (simp add: startup_def)
  have "Mem_Init linux 0 startup = Inr (- 1, startup)"
    using failed_Mem_Init_stays_unarmed[OF c, of 0 linux startup] by simp
  moreover have "Mem_Init (linux\<lparr>open_dev_zero := - 1\<rparr>) 4096 startup = Inr (- 1, startup)"
    using failed_Mem_Init_stays_unarmed[OF c, of 4096 "linux\<lparr>open_dev_zero := - 1\<rparr>" startup]
    by (simp add: linux_def)
  moreover have "Mem_Init (linux\<lparr>mmap := MAP_FAILED\<rparr>) 4096 startup = Inr (- 1, startup)"
    using failed_Mem_Init_stays_unarmed[OF c, of 4096 "linux\<lparr>mmap := MAP_FAILED\<rparr>" startup]
    by (simp add: linux_def)
  ultimately show ?thesis using c init_fresh by simp
qed

section \<open>The invariant of the block chain\<close>

text \<open>
  C6 as stated (the block sizes add up to the requested size rounded up to the page
  size) does not hold: after \<open>Mem_Init(4096)\<close> with pages of 4096 bytes the chain is
  one block of 4088 bytes, and the end mark that follows has size 0. Counting the four
  bytes that the end mark occupies gives 4092, not 4096 either.
\<close>

theorem chain_total_is_not_region_size:
  "Mem_Init linux 4096 startup = Inr (0, heap_fresh) \<and>
   round_up_to_page 4096 (getpagesize linux) = 4096 \<and>
   chain_total heap_fresh = Some 4088 \<and>
   chain_total heap_fresh \<noteq> Some (round_up_to_page 4096 (getpagesize linux)) \<and>
   chain_total heap_fresh \<noteq> Some (round_up_to_page 4096 (getpagesize linux) - 4)"
proof -
  have r: "round_up_to_page 4096 (getpagesize linux) = 4096"
    by (simp add: round_up_to_page_def linux_def)
  have t: "chain_total heap_fresh = Some 4088"
    by (simp add: chain_total_def dump_fresh_heap)
  show ?thesis using init_fresh by (simp add: r t)
qed

text \<open>
  C6, amended: after a successful \<open>Mem_Init\<close> and any sequence of public calls that
  return, the blocks printed by \<open>Mem_Dump\<close> are contiguous from \<open>first_blk\<close>, their
  sizes add up to the requested size rounded up to the page size minus 8, and the end
  mark is the word right after them. The page size is a positive multiple of 8 and
  the rounded size fits an \<open>int\<close>.
\<close>

theorem chain_spans_region_less_8:
  assumes "Mem_Init sys n startup = Inr (0, h0)"
    and "run calls h0 = Some (Inr h)"
    and "0 < getpagesize sys" and "getpagesize sys mod 8 = 0"
    and "round_up_to_page n (getpagesize sys) < 2147483648"
  shows "chain_contiguous h \<and>
         chain_total h = Some (round_up_to_page n (getpagesize sys) - 8) \<and>
         load h (first_blk h + (round_up_to_page n (getpagesize sys) - 8)) = Inr 1"
proof -
  let ?a = "round_up_to_page n (getpagesize sys) - 8"
  have "laid_out (mmap sys) ?a h0" using assms(1,3,4,5) by (rule init_laid_out)
  then have L: "laid_out (mmap sys) ?a h" using assms(2) by (rule run_laid_out)
  have f: "first_blk h = mmap sys + 4" using L by (rule laid_outD)
  from dump_laid_out[OF L] obtain r where r: "Mem_Dump h = Some (Inr r)"
    "contiguous (mmap sys + 4) (rows r)" "sum_list (map t_size (rows r)) = ?a" by blast
  have "load h (first_blk h + ?a) = Inr 1" unfolding f by (rule laid_out_end_mark[OF L])
  with r f show ?thesis by (simp add: chain_contiguous_def chain_total_def)
qed

text \<open>A run on the concrete system that ends in the heap whose block is busy.\<close>

theorem chain_spans_region_less_8_witness:
  "Mem_Init linux 4096 startup = Inr (0, heap_fresh) \<and>
   run [Alloc 4084, Free 1048596, Dump, Init linux 4096, Alloc 0] heap_fresh = Some (Inr heap_full) \<and>
   0 < getpagesize linux \<and> getpagesize linux mod 8 = 0 \<and>
   round_up_to_page 4096 (getpagesize linux) < 2147483648 \<and>
   chain_contiguous heap_full \<and> chain_total heap_full = Some 4088 \<and>
   load heap_full (first_blk heap_full + 4088) = Inr 1"
proof -
  have p: "0 < getpagesize linux" "getpagesize linux mod 8 = 0"
    "round_up_to_page 4096 (getpagesize linux) < 2147483648"
    by (simp_all add: linux_def round_up_to_page_def)
  have e: "round_up_to_page 4096 (getpagesize linux) - 8 = 4088"
    by (simp add: linux_def round_up_to_page_def)
  from chain_spans_region_less_8[OF init_fresh run_example p] init_fresh run_example p
  show ?thesis unfolding e by simp
qed

end
